theory Spec2Isabelle
  imports Main
begin

section \<open>The data model of \<open>multi_array.h\<close>\<close>

text \<open>
  The header defines one class template, \<open>multi_array<T, M, N...>\<close>, with a specialisation
  for rank 1. The template arguments \<open>M, N...\<close> are a non-empty list of dimensions,
  outermost first; here they are an explicit first argument \<open>ds :: nat list\<close> of every
  function that the source writes as a member or as a template over them.

  A value of the primary template holds \<open>multi_array<T, N...> sub_array_[M]\<close>, a value of
  the specialisation holds \<open>T sub_array_[N]\<close>.
\<close>

datatype 'a multi_array =
    Array1 "'a list"
  | ArrayN "'a multi_array list"

text \<open>
  What a run can end in besides a value: a failed \<open>assert\<close> (assertions enabled), a
  subscript outside a built-in array, which C++ leaves undefined and no code of the header
  checks, and a program the compiler rejects (a failed \<open>static_assert\<close> or
  \<open>requires\<close>-clause, a missing conversion).
\<close>

datatype error = Assertion_failed | Undefined_behaviour | Ill_formed

text \<open>The values a class type \<open>multi_array<T, ds>\<close> has: \<open>sub_array_\<close> has exactly the
  declared number of elements at every level.\<close>

fun has_shape :: "nat list \<Rightarrow> 'a multi_array \<Rightarrow> bool" where
  "has_shape [n] (Array1 xs) = (length xs = n)"
| "has_shape (m # n # ns) (ArrayN subs) =
     (length subs = m \<and> (\<forall>s \<in> set subs. has_shape (n # ns) s))"
| "has_shape _ _ = False"

text \<open>A full coordinate \<open>(i1, ..., iR)\<close> within the dimensions \<open>(d1, ..., dR)\<close>.\<close>

definition in_bounds :: "nat list \<Rightarrow> nat list \<Rightarrow> bool" where
  "in_bounds is ds = list_all2 (\<lambda>i d. i < d) is ds"

subsection \<open>Built-in arrays and \<open>array_size\<close>\<close>

text \<open>
  A built-in array type: \<open>Array t n\<close> is \<open>T[N]\<close> with element type \<open>t\<close>, so that
  \<open>int[2][3]\<close> is \<open>Array (Array Scalar 3) 2\<close>. \<open>Scalar\<close> is any type with no extent.
\<close>

datatype c_type = Scalar | Array c_type nat

text \<open>The extents of a type, outermost first (\<open>std::extent_v<T, 0>\<close>, \<open><T, 1>\<close>, ...).\<close>

fun extents :: "c_type \<Rightarrow> nat list" where
  "extents Scalar = []"
| "extents (Array t n) = n # extents t"

text \<open>
  \<open>C_array_size_impl<T>::value\<close> is a \<open>std::size_t\<close>: the product is taken modulo
  \<open>2 ^ 64\<close>. The primary template gives 1, the partial specialisation for \<open>T[N]\<close>
  multiplies the value of the element type by \<open>N\<close>.
\<close>

definition size_t_modulus :: nat where
  "size_t_modulus = 2 ^ 64"

fun C_array_size_impl :: "c_type \<Rightarrow> nat" where
  "C_array_size_impl Scalar = 1"
| "C_array_size_impl (Array t n) = (C_array_size_impl t * n) mod size_t_modulus"

text \<open>\<open>array_size(const T&)\<close> reads the type of its argument only.\<close>

definition array_size :: "c_type \<Rightarrow> 'v \<Rightarrow> nat" where
  "array_size t a = C_array_size_impl t"

subsection \<open>\<open>size\<close>, \<open>max_size\<close>, \<open>empty\<close>, \<open>order\<close>\<close>

text \<open>The static members; in each function the first equation is the rank-1
  specialisation, the second the primary template.\<close>

fun size_ma :: "nat list \<Rightarrow> nat" where
  "size_ma [n] = n"
| "size_ma (m # ns) = m"

fun max_size :: "nat list \<Rightarrow> nat" where
  "max_size [n] = size_ma [n]"
| "max_size (m # ns) = m"

fun empty :: "nat list \<Rightarrow> bool" where
  "empty [n] = (size_ma [n] = 0)"
| "empty (m # ns) = (size_ma (m # ns) = 0)"

fun order :: "nat list \<Rightarrow> nat" where
  "order [n] = 1"
| "order (m # ns) = length ns + 1"

subsection \<open>Element access\<close>

text \<open>
  A subscript into the member array \<open>sub_array_\<close>. Nothing checks it: outside the
  array the behaviour is undefined, and no assertion fires.
\<close>

definition subscript :: "'b list \<Rightarrow> nat \<Rightarrow> error + 'b" where
  "subscript xs i = (if i < length xs then Inr (xs ! i) else Inl Undefined_behaviour)"

text \<open>What \<open>operator[]\<close> and \<open>get\<close> refer to: an element of \<open>T\<close> at rank 1, a
  sub-array of rank \<open>R - 1\<close> above.\<close>

datatype 'a slot = Element 'a | Sub_array "'a multi_array"

text \<open>
  \<open>operator[](std::size_t i)\<close>: \<open>return sub_array_[i];\<close> in both templates. In this and
  the following functions the last equation stands for arguments that are not of the C++
  types of the call, which the compiler rejects.
\<close>

fun operator_index :: "nat list \<Rightarrow> 'a multi_array \<Rightarrow> nat \<Rightarrow> error + 'a slot" where
  "operator_index [n] (Array1 xs) i = map_sum id Element (subscript xs i)"
| "operator_index (m # n # ns) (ArrayN subs) i = map_sum id Sub_array (subscript subs i)"
| "operator_index _ _ _ = Inl Ill_formed"

text \<open>
  \<open>operator()(Index i, Indices... j)\<close>: at rank 1 \<open>return sub_array_[i];\<close>, above
  \<open>return sub_array_[i](j...);\<close> under
  \<open>requires (sizeof...(Indices) + 1 == order())\<close>.
\<close>

fun call :: "nat list \<Rightarrow> 'a multi_array \<Rightarrow> nat list \<Rightarrow> error + 'a" where
  "call [n] (Array1 xs) [i] = subscript xs i"
| "call (m # n # ns) (ArrayN subs) (i # j) =
     (if length j + 1 = order (m # n # ns) then
        (case subscript subs i of
           Inl e \<Rightarrow> Inl e
         | Inr s \<Rightarrow> call (n # ns) s j)
      else Inl Ill_formed)"
| "call _ _ _ = Inl Ill_formed"

text \<open>
  \<open>at(Index i, Indices... j)\<close>: at rank 1 \<open>assert(i < N); return sub_array_[i];\<close>, above
  \<open>assert(i < M); return sub_array_[i](j...);\<close>, the same body as \<open>operator()\<close> after
  the assertion: the sub-array is entered through its \<open>operator()\<close>, not its \<open>at\<close>.
\<close>

fun at :: "nat list \<Rightarrow> 'a multi_array \<Rightarrow> nat list \<Rightarrow> error + 'a" where
  "at [n] (Array1 xs) [i] =
     (if i < n then subscript xs i else Inl Assertion_failed)"
| "at (m # n # ns) (ArrayN subs) (i # j) =
     (if length j + 1 = order (m # n # ns) then
        if i < m then
          (case subscript subs i of
             Inl e \<Rightarrow> Inl e
           | Inr s \<Rightarrow> call (n # ns) s j)
        else Inl Assertion_failed
      else Inl Ill_formed)"
| "at _ _ _ = Inl Ill_formed"

text \<open>
  \<open>get<I>(a)\<close> is \<open>static_assert(I < N); return a[I];\<close> and \<open>get<I, J...>(a)\<close>, under
  \<open>requires (sizeof...(J) <= sizeof...(M)) && (sizeof...(J) > 0)\<close>, is
  \<open>static_assert(I < N); return get<J...>(a[I]);\<close>. The first argument is the
  compile-time coordinate, the second the dimensions \<open>N, M...\<close> of the type of \<open>a\<close>.
\<close>

fun get :: "nat list \<Rightarrow> nat list \<Rightarrow> 'a multi_array \<Rightarrow> error + 'a slot" where
  "get [i] (n # ms) a =
     (if i < n then operator_index (n # ms) a i else Inl Ill_formed)"
| "get (i # j) (n # ms) a =
     (if length j \<le> length ms \<and> length j > 0 then
        if i < n then
          (case operator_index (n # ms) a i of
             Inl e \<Rightarrow> Inl e
           | Inr (Sub_array s) \<Rightarrow> get j ms s
           | Inr (Element x) \<Rightarrow> Inl Ill_formed)
        else Inl Ill_formed
      else Inl Ill_formed)"
| "get _ _ _ = Inl Ill_formed"

subsection \<open>Iterators\<close>

text \<open>
  \<open>iterator\<close> is \<open>value_type*\<close>, a pointer into \<open>sub_array_\<close>: the number \<open>k\<close> stands for
  \<open>sub_array_ + k\<close>. \<open>begin()\<close> is \<open>iterator(sub_array_)\<close>, \<open>end()\<close> is
  \<open>iterator(sub_array_ + M)\<close> (\<open>sub_array_ + N\<close> at rank 1).
\<close>

type_synonym iterator = nat

definition begin_ma :: "nat list \<Rightarrow> iterator" where
  "begin_ma ds = 0"

fun end_ma :: "nat list \<Rightarrow> iterator" where
  "end_ma [n] = 0 + n"
| "end_ma (m # ns) = 0 + m"

text \<open>
  \<open>reverse_iterator\<close> is \<open>std::reverse_iterator<iterator>\<close>, built from the iterator it
  keeps as \<open>base()\<close>. It is a class of the standard library with no conversion function,
  and a pointer has no constructor: no conversion leads from \<open>reverse_iterator\<close> to
  \<open>iterator\<close>, and a \<open>return\<close> statement that needs one is ill-formed.
\<close>

datatype reverse_iterator = Reverse_iterator (base: iterator)

definition return_as_iterator :: "reverse_iterator \<Rightarrow> error + iterator" where
  "return_as_iterator r = Inl Ill_formed"

text \<open>
  \<open>constexpr iterator rbegin() noexcept { return reverse_iterator(end()); }\<close> and
  \<open>constexpr iterator rend() noexcept { return reverse_iterator(begin()); }\<close>, the same in
  both templates and, with \<open>const_iterator\<close> and \<open>const_reverse_iterator\<close>, in the
  \<open>const\<close>, \<open>crbegin\<close> and \<open>crend\<close> overloads: the declared return type is the pointer
  type, the returned expression a \<open>reverse_iterator\<close>.
\<close>

definition rbegin :: "nat list \<Rightarrow> error + iterator" where
  "rbegin ds = return_as_iterator (Reverse_iterator (end_ma ds))"

definition rend :: "nat list \<Rightarrow> error + iterator" where
  "rend ds = return_as_iterator (Reverse_iterator (begin_ma ds))"

text \<open>The contents of \<open>sub_array_\<close>, as what an iterator refers to.\<close>

fun slots :: "'a multi_array \<Rightarrow> 'a slot list" where
  "slots (Array1 xs) = map Element xs"
| "slots (ArrayN subs) = map Sub_array subs"

text \<open>
  The loop of a caller, \<open>for (it = first; it != last; ++it) visit(*it);\<close>, over pointers
  into an array \<open>xs\<close>: the list of the values visited.
\<close>

function traverse :: "'b list \<Rightarrow> iterator \<Rightarrow> iterator \<Rightarrow> error + 'b list" where
  "traverse xs first last_it =
     (if first = last_it then Inr []
      else if first < length xs then
        map_sum id (Cons (xs ! first)) (traverse xs (Suc first) last_it)
      else Inl Undefined_behaviour)"
  by pat_completeness auto
termination
  by (relation "measure (\<lambda>(xs, first, last_it). length xs - first)") auto

text \<open>
  The same loop over \<open>std::reverse_iterator\<close>s: \<open>*it\<close> is \<open>*(base() - 1)\<close>, \<open>++it\<close>
  decrements \<open>base()\<close>.
\<close>

function traverse_reverse ::
  "'b list \<Rightarrow> reverse_iterator \<Rightarrow> reverse_iterator \<Rightarrow> error + 'b list" where
  "traverse_reverse xs first last_it =
     (if first = last_it then Inr []
      else if 0 < base first \<and> base first \<le> length xs then
        map_sum id (Cons (xs ! (base first - 1)))
          (traverse_reverse xs (Reverse_iterator (base first - 1)) last_it)
      else Inl Undefined_behaviour)"
  by pat_completeness auto
termination
  by (relation "measure (\<lambda>(xs, first, last_it). base first)") auto

text \<open>Forward iteration, \<open>for (auto it = a.begin(); it != a.end(); ++it)\<close>, and reverse
  iteration, \<open>for (auto it = a.rbegin(); it != a.rend(); ++it)\<close>, which steps pointers,
  the declared type of \<open>rbegin()\<close>.\<close>

definition iterate :: "nat list \<Rightarrow> 'a multi_array \<Rightarrow> error + 'a slot list" where
  "iterate ds a = traverse (slots a) (begin_ma ds) (end_ma ds)"

definition iterate_reverse :: "nat list \<Rightarrow> 'a multi_array \<Rightarrow> error + 'a slot list" where
  "iterate_reverse ds a =
     (case rbegin ds of
        Inl e \<Rightarrow> Inl e
      | Inr first \<Rightarrow>
          (case rend ds of
             Inl e \<Rightarrow> Inl e
           | Inr last_it \<Rightarrow> traverse (slots a) first last_it))"

subsection \<open>\<open>fill\<close> and the broadcast constructor\<close>

text \<open>
  \<open>multi_array() = default\<close>: every \<open>T\<close> is default-initialised. \<open>d\<close> is what that leaves
  in a \<open>T\<close>: the value of the default constructor of a class type, any value for a scalar
  type (it is indeterminate).
\<close>

fun default_init :: "nat list \<Rightarrow> 'a \<Rightarrow> 'a multi_array" where
  "default_init [n] d = Array1 (replicate n d)"
| "default_init (m # ns) d = ArrayN (replicate m (default_init ns d))"

text \<open>
  \<open>std::fill(first, last, value)\<close> is \<open>for (; first != last; ++first) *first = value;\<close>.
  At rank 1 the assignment stores the \<open>T\<close>; above, \<open>*first\<close> is a
  \<open>multi_array<T, N...>\<close> and the assignment converts \<open>value\<close> through the converting
  constructor \<open>multi_array<T, N...>(const T&)\<close> each time: \<open>conv\<close>.
\<close>

function std_fill ::
  "('c \<Rightarrow> error + 'b) \<Rightarrow> iterator \<Rightarrow> iterator \<Rightarrow> 'c \<Rightarrow> 'b list \<Rightarrow> error + 'b list" where
  "std_fill conv first last_it v xs =
     (if first = last_it then Inr xs
      else if first < length xs then
        (case conv v of
           Inl e \<Rightarrow> Inl e
         | Inr y \<Rightarrow> std_fill conv (Suc first) last_it v (xs[first := y]))
      else Inl Undefined_behaviour)"
  by pat_completeness auto
termination
  by (relation "measure (\<lambda>(conv, first, last_it, v, xs). length xs - first)") auto

declare traverse.simps [simp del] traverse_reverse.simps [simp del] std_fill.simps [simp del]

text \<open>
  \<open>fill(const T& value)\<close> and the constructor \<open>multi_array(const T& value)\<close> have the same
  body, \<open>std::fill(begin(), end(), value);\<close>; the constructor runs it on a
  default-initialised object.
\<close>

fun fill :: "'a \<Rightarrow> nat list \<Rightarrow> 'a \<Rightarrow> 'a multi_array \<Rightarrow> error + 'a multi_array"
  and multi_array_value :: "'a \<Rightarrow> nat list \<Rightarrow> 'a \<Rightarrow> error + 'a multi_array" where
  "fill d [n] v (Array1 xs) =
     map_sum id Array1 (std_fill Inr (begin_ma [n]) (end_ma [n]) v xs)"
| "fill d (m # n # ns) v (ArrayN subs) =
     map_sum id ArrayN
       (std_fill (multi_array_value d (n # ns)) (begin_ma (m # n # ns)) (end_ma (m # n # ns))
          v subs)"
| "fill d _ v _ = Inl Ill_formed"
| "multi_array_value d ds v = fill d ds v (default_init ds d)"

subsection \<open>\<open>data\<close>\<close>

text \<open>
  A pointer into an array object is the chain of subscripts of the sub-object it points
  to: \<open>[i, j]\<close> is \<open>&a[i][j]\<close>. Its length tells the type it points to, a \<open>T\<close> when it is
  as long as the dimension list, the sub-array type of the remaining dimensions before.

  \<open>data()\<close> is \<open>return sub_array_;\<close> at rank 1, the address of \<open>sub_array_[0]\<close>, and
  \<open>return sub_array_->data();\<close> above: \<open>data()\<close> of \<open>sub_array_[0]\<close>.
\<close>

type_synonym pointer = "nat list"

fun data :: "nat list \<Rightarrow> pointer" where
  "data [n] = [0]"
| "data (m # ns) = 0 # data ns"

definition pointee_type :: "nat list \<Rightarrow> pointer \<Rightarrow> nat list" where
  "pointee_type ds p = drop (length p) ds"

fun deref :: "'a multi_array \<Rightarrow> pointer \<Rightarrow> error + 'a slot" where
  "deref a [] = Inr (Sub_array a)"
| "deref (Array1 xs) [i] = map_sum id Element (subscript xs i)"
| "deref (Array1 xs) (i # j # p) = Inl Ill_formed"
| "deref (ArrayN subs) (i # p) =
     (if i < length subs then deref (subs ! i) p else Inl Undefined_behaviour)"

subsection \<open>Comparison\<close>

text \<open>
  The loop of \<open>operator==\<close>,
  \<open>for (std::size_t i = 0; i < M; ++i) { if (lhs[i] != rhs[i]) return false; } return true;\<close>
  where \<open>lhs[i]\<close> is \<open>sub_array_[i]\<close> and \<open>ne\<close> is the \<open>!=\<close> of the slots.
\<close>

function eq_loop ::
  "('b \<Rightarrow> 'b \<Rightarrow> error + bool) \<Rightarrow> nat \<Rightarrow> nat \<Rightarrow> 'b list \<Rightarrow> 'b list \<Rightarrow> error + bool" where
  "eq_loop ne i m lhs rhs =
     (if i < m then
        (case subscript lhs i of
           Inl e \<Rightarrow> Inl e
         | Inr x \<Rightarrow>
             (case subscript rhs i of
                Inl e \<Rightarrow> Inl e
              | Inr y \<Rightarrow>
                  (case ne x y of
                     Inl e \<Rightarrow> Inl e
                   | Inr c \<Rightarrow> if c then Inr False else eq_loop ne (Suc i) m lhs rhs)))
      else Inr True)"
  by pat_completeness auto
termination
  by (relation "measure (\<lambda>(ne, i, m, lhs, rhs). m - i)") auto

declare eq_loop.simps [simp del]

text \<open>
  \<open>operator==\<close> and \<open>operator!=\<close>, the latter \<open>return !(lhs == rhs);\<close>. At rank 1 the
  slots are of type \<open>T\<close> and compared by the \<open>!=\<close> of \<open>T\<close>, the parameter \<open>ne_T\<close>;
  above they are sub-arrays, compared by \<open>operator!=\<close> at the remaining dimensions.
\<close>

fun operator_eq ::
    "('a \<Rightarrow> 'a \<Rightarrow> bool) \<Rightarrow> nat list \<Rightarrow> 'a multi_array \<Rightarrow> 'a multi_array \<Rightarrow> error + bool"
  and operator_ne ::
    "('a \<Rightarrow> 'a \<Rightarrow> bool) \<Rightarrow> nat list \<Rightarrow> 'a multi_array \<Rightarrow> 'a multi_array \<Rightarrow> error + bool"
  where
  "operator_eq ne_T [n] (Array1 xs) (Array1 ys) =
     eq_loop (\<lambda>x y. Inr (ne_T x y)) 0 n xs ys"
| "operator_eq ne_T (m # n # ns) (ArrayN xs) (ArrayN ys) =
     eq_loop (operator_ne ne_T (n # ns)) 0 m xs ys"
| "operator_eq ne_T _ _ _ = Inl Ill_formed"
| "operator_ne ne_T ds lhs rhs = map_sum id Not (operator_eq ne_T ds lhs rhs)"

text \<open>Two slots of arrays with remaining dimensions \<open>ds\<close> compare equal: by the \<open>==\<close>
  of \<open>T\<close>, \<open>eq_T\<close>, at rank 1, by \<open>operator==\<close> of the sub-arrays above.\<close>

fun slots_equal :: "('a \<Rightarrow> 'a \<Rightarrow> bool) \<Rightarrow> nat list \<Rightarrow> 'a slot \<Rightarrow> 'a slot \<Rightarrow> bool" where
  "slots_equal eq_T ds (Element x) (Element y) = eq_T x y"
| "slots_equal eq_T ds (Sub_array s) (Sub_array t) =
     (operator_eq (\<lambda>x y. \<not> eq_T x y) ds s t = Inr True)"
| "slots_equal eq_T ds _ _ = False"

subsection \<open>Construction from a nested initializer list\<close>

text \<open>
  \<open>Nested_initializer<T, M, N...>\<close> is \<open>std::initializer_list\<close> nested as deep as the
  rank; the lengths of the lists are not part of the type.
\<close>

datatype 'a nested_initializer =
    Initializer1 "'a list"
  | InitializerN "'a nested_initializer list"

fun initializer_typed :: "nat list \<Rightarrow> 'a nested_initializer \<Rightarrow> bool" where
  "initializer_typed [n] (Initializer1 xs) = True"
| "initializer_typed (m # n # ns) (InitializerN ls) =
     (\<forall>l \<in> set ls. initializer_typed (n # ns) l)"
| "initializer_typed _ _ = False"

text \<open>
  \<open>std::copy(first, last, d_first)\<close> is
  \<open>while (first != last) *d_first++ = *first++;\<close> over the elements of an initializer
  list. At rank 1 the assignment stores a \<open>T\<close>; above, it converts the inner list through
  the constructor of the sub-array, \<open>conv\<close>, whose assertion may fail.
\<close>

fun std_copy ::
  "('c \<Rightarrow> error + 'b) \<Rightarrow> 'c list \<Rightarrow> iterator \<Rightarrow> 'b list \<Rightarrow> error + 'b list" where
  "std_copy conv [] d_first dst = Inr dst"
| "std_copy conv (x # src) d_first dst =
     (case conv x of
        Inl e \<Rightarrow> Inl e
      | Inr y \<Rightarrow>
          if d_first < length dst then std_copy conv src (Suc d_first) (dst[d_first := y])
          else Inl Undefined_behaviour)"

text \<open>
  The constructors from an initializer list:
  \<open>assert(initializer.size() == N); std::copy(initializer.begin(), initializer.end(), begin());\<close>
  at rank 1 and
  \<open>assert(init_list.size() == M); std::copy(init_list.begin(), init_list.end(), sub_array_);\<close>
  above, on an object whose \<open>sub_array_\<close> is default-initialised.
\<close>

fun multi_array_init ::
  "'a \<Rightarrow> nat list \<Rightarrow> 'a nested_initializer \<Rightarrow> error + 'a multi_array" where
  "multi_array_init d [n] (Initializer1 initializer) =
     (if length initializer = n then
        map_sum id Array1 (std_copy Inr initializer (begin_ma [n]) (replicate n d))
      else Inl Assertion_failed)"
| "multi_array_init d (m # n # ns) (InitializerN init_list) =
     (if length init_list = m then
        map_sum id ArrayN
          (std_copy (multi_array_init d (n # ns)) init_list 0
             (replicate m (default_init (n # ns) d)))
      else Inl Assertion_failed)"
| "multi_array_init d _ _ = Inl Ill_formed"

text \<open>Every level of the literal has the length of the declared dimension, and the
  element of the literal at a nested position.\<close>

fun initializer_matches :: "nat list \<Rightarrow> 'a nested_initializer \<Rightarrow> bool" where
  "initializer_matches [n] (Initializer1 xs) = (length xs = n)"
| "initializer_matches (m # n # ns) (InitializerN ls) =
     (length ls = m \<and> (\<forall>l \<in> set ls. initializer_matches (n # ns) l))"
| "initializer_matches _ _ = False"

fun initializer_at :: "'a nested_initializer \<Rightarrow> nat list \<Rightarrow> 'a option" where
  "initializer_at (Initializer1 xs) [i] = (if i < length xs then Some (xs ! i) else None)"
| "initializer_at (InitializerN ls) (i # j) =
     (if i < length ls then initializer_at (ls ! i) j else None)"
| "initializer_at _ _ = None"

text \<open>The array a literal denotes, level for level; the proofs compare the result of
  the constructor with it.\<close>

fun literal_array :: "'a nested_initializer \<Rightarrow> 'a multi_array" where
  "literal_array (Initializer1 xs) = Array1 xs"
| "literal_array (InitializerN ls) = ArrayN (map literal_array ls)"

subsection \<open>Conversion from a built-in array\<close>

text \<open>A value of a built-in array type, and its subscripting \<open>a[i1]...[iR]\<close>.\<close>

datatype 'a c_array = Value 'a | Elements "'a c_array list"

fun c_has_type :: "c_type \<Rightarrow> 'a c_array \<Rightarrow> bool" where
  "c_has_type Scalar (Value x) = True"
| "c_has_type (Array t n) (Elements xs) = (length xs = n \<and> (\<forall>x \<in> set xs. c_has_type t x))"
| "c_has_type _ _ = False"

fun c_subscript :: "'a c_array \<Rightarrow> nat list \<Rightarrow> error + 'a" where
  "c_subscript (Value x) [] = Inr x"
| "c_subscript (Elements xs) (i # is) =
     (if i < length xs then c_subscript (xs ! i) is else Inl Undefined_behaviour)"
| "c_subscript _ _ = Inl Ill_formed"

text \<open>
  \<open>std::rank_v<T>\<close> and \<open>std::extent_v<T, I>\<close>; \<open>multi_array_for<T>\<close> is
  \<open>multi_array<std::remove_all_extents_t<T>, std::extent_v<T, I>...>\<close> for \<open>I\<close> in
  \<open>std::make_index_sequence<std::rank_v<T>>\<close>, that is \<open>0, ..., rank - 1\<close>: its dimension
  list.
\<close>

fun rank :: "c_type \<Rightarrow> nat" where
  "rank Scalar = 0"
| "rank (Array t n) = rank t + 1"

fun extent :: "c_type \<Rightarrow> nat \<Rightarrow> nat" where
  "extent Scalar i = 0"
| "extent (Array t n) 0 = n"
| "extent (Array t n) (Suc i) = extent t i"

definition multi_array_for :: "c_type \<Rightarrow> nat list" where
  "multi_array_for t = map (extent t) [0..<rank t]"

text \<open>
  The memory of the objects, in units of \<open>T\<close>. A built-in array stores its elements in
  order, so its scalars lie in row-major order. A \<open>multi_array\<close> has the one member
  \<open>sub_array_\<close>; its scalars lie in the same order, on the assumption, which
  \<open>to_multi_array\<close> makes, that the class adds no padding to the member array.
  \<open>of_storage\<close> reads a \<open>multi_array<T, ds>\<close> back from such memory.
\<close>

fun c_storage :: "'a c_array \<Rightarrow> 'a list" where
  "c_storage (Value x) = [x]"
| "c_storage (Elements xs) = concat (map c_storage xs)"

fun storage :: "'a multi_array \<Rightarrow> 'a list" where
  "storage (Array1 xs) = xs"
| "storage (ArrayN subs) = concat (map storage subs)"

fun of_storage :: "nat list \<Rightarrow> 'a list \<Rightarrow> 'a multi_array" where
  "of_storage [n] mem = Array1 (take n mem)"
| "of_storage (m # ns) mem =
     ArrayN (map (\<lambda>k. of_storage ns (take (prod_list ns) (drop (k * prod_list ns) mem)))
               [0..<m])"

text \<open>The place in the memory of a \<open>multi_array<T, ds>\<close> that a pointer refers to.\<close>

fun address :: "nat list \<Rightarrow> pointer \<Rightarrow> nat" where
  "address (d # ds) (i # p) = i * prod_list ds + address ds p"
| "address ds p = 0"

text \<open>
  \<open>std::copy_n(first, count, result)\<close> copies \<open>count\<close> scalars from the place \<open>first\<close>
  of the memory \<open>src\<close> to the place \<open>result\<close> of the memory \<open>dst\<close>, one by one.
\<close>

fun copy_n :: "'a list \<Rightarrow> nat \<Rightarrow> nat \<Rightarrow> 'a list \<Rightarrow> nat \<Rightarrow> error + 'a list" where
  "copy_n src first 0 dst result = Inr dst"
| "copy_n src first (Suc count) dst result =
     (if first < length src \<and> result < length dst then
        copy_n src (Suc first) count (dst[result := src ! first]) (Suc result)
      else Inl Undefined_behaviour)"

text \<open>
  \<open>to_multi_array(const T& a)\<close>:
  \<open>multi_array_for<T> result; std::copy_n((R*)a, array_size(a), result.data()); return result;\<close>
  where \<open>(R*)a\<close> is the place of the first scalar of \<open>a\<close>. A type \<open>T\<close> of rank 0 gives
  \<open>multi_array<T>\<close> with no dimension, which is ill-formed.
\<close>

definition to_multi_array :: "'a \<Rightarrow> c_type \<Rightarrow> 'a c_array \<Rightarrow> error + 'a multi_array" where
  "to_multi_array d t a =
     (let ds = multi_array_for t in
      if ds = [] then Inl Ill_formed
      else
        let result = default_init ds d in
        (case copy_n (c_storage a) 0 (array_size t a) (storage result) (address ds (data ds)) of
           Inl e \<Rightarrow> Inl e
         | Inr mem \<Rightarrow> Inr (of_storage ds mem)))"

text \<open>The 2x3 array of the spec's scenario, \<open>{{1, 2, 3}, {4, 5, 6}}\<close>.\<close>

definition example_2x3 :: "int multi_array" where
  "example_2x3 = ArrayN [Array1 [1, 2, 3], Array1 [4, 5, 6]]"

section \<open>Properties\<close>

lemma C_array_size_impl_mod:
  "C_array_size_impl t = prod_list (extents t) mod size_t_modulus"
proof (induction t)
  case Scalar
  show ?case by (simp add: size_t_modulus_def)
next
  case (Array t n)
  have "(prod_list (extents t) mod size_t_modulus * n) mod size_t_modulus
      = (n * prod_list (extents t)) mod size_t_modulus"
    by (metis mod_mult_left_eq mult.commute)
  with Array show ?case by simp
qed

text \<open>
  C4. For every instantiation \<open>multi_array<T, d1, ..., dR>\<close>, \<open>size()\<close> and
  \<open>max_size()\<close> return the outermost dimension \<open>d1\<close> only (a 2x3 array reports 2, not
  6), \<open>empty()\<close> is true iff \<open>d1 = 0\<close>, and \<open>order()\<close> is \<open>R\<close>, the number of
  dimensions of the type.
\<close>

theorem size_is_outermost_dimension:
  "size_ma (d1 # ds) = d1 \<and> max_size (d1 # ds) = d1
   \<and> empty (d1 # ds) = (d1 = 0) \<and> order (d1 # ds) = length (d1 # ds)
   \<and> size_ma [2, 3] = 2 \<and> size_ma [2, 3] \<noteq> 2 * 3"
  by (cases ds) simp_all

text \<open>
  C10. For every built-in array type, \<open>array_size\<close> returns the product of all its
  extents, the number of scalar elements and not the outermost count; for a type with no
  extent the empty product is 1. The product is computed in \<open>std::size_t\<close>; an array
  type whose object exists has fewer than \<open>2 ^ 64\<close> elements, and there the result is
  the product itself.
\<close>

theorem array_size_is_product_of_extents:
  "array_size t a = prod_list (extents t) mod size_t_modulus
   \<and> (prod_list (extents t) < size_t_modulus \<longrightarrow> array_size t a = prod_list (extents t))
   \<and> (extents t = [] \<longrightarrow> array_size t a = 1)"
  by (simp add: array_size_def C_array_size_impl_mod size_t_modulus_def)

theorem array_size_is_product_of_extents_witness:
  "prod_list (extents (Array (Array Scalar 3) 2)) < size_t_modulus
   \<and> array_size (Array (Array Scalar 3) 2) [[1, 2, 3], [4, 5, 6 :: int]] = 6
   \<and> extents Scalar = [] \<and> array_size Scalar (7 :: int) = 1"
  using array_size_is_product_of_extents [of "Array (Array Scalar 3) 2" "[[1, 2, 3], [4, 5, 6 :: int]]"]
    array_size_is_product_of_extents [of Scalar "7 :: int"]
  by (simp add: size_t_modulus_def)

subsection \<open>Access\<close>

lemma subscript_in_range [simp]: "i < length xs \<Longrightarrow> subscript xs i = Inr (xs ! i)"
  by (simp add: subscript_def)

lemma subscript_out_of_range [simp]:
  "\<not> i < length xs \<Longrightarrow> subscript xs i = Inl Undefined_behaviour"
  by (simp add: subscript_def)

lemma has_shape_nth:
  "has_shape (m # n # ns) (ArrayN subs) \<Longrightarrow> i < m \<Longrightarrow> has_shape (n # ns) (subs ! i)"
  by simp

lemma order_length: "ds \<noteq> [] \<Longrightarrow> order ds = length ds"
  by (cases ds rule: order.cases) simp_all

text \<open>Within the dimensions, full-coordinate access returns an element.\<close>

lemma call_in_bounds:
  "has_shape ds a \<Longrightarrow> in_bounds is ds \<Longrightarrow> \<exists>x. call ds a is = Inr x"
proof (induction ds a "is" rule: call.induct)
  case (1 n xs i)
  then show ?case by (simp add: in_bounds_def)
next
  case (2 m n ns subs i j)
  from "2.prems" have len: "length j = length (n # ns)" and i: "i < m"
    and rest: "in_bounds j (n # ns)"
    by (auto simp: in_bounds_def dest: list_all2_lengthD)
  from "2.prems" i have sub: "has_shape (n # ns) (subs ! i)" and il: "i < length subs"
    by simp_all
  from len have ord: "length j + 1 = order (m # n # ns)" by simp
  from "2.IH" [OF ord, of "subs ! i"] il sub rest
  obtain x where "call (n # ns) (subs ! i) j = Inr x" by auto
  with ord il show ?case by simp
qed (auto simp: in_bounds_def list_all2_Cons1 elim!: has_shape.elims)

text \<open>What \<open>at\<close> does: it asserts the first index and is \<open>operator()\<close> otherwise.\<close>

lemma at_asserts_first_index:
  assumes "has_shape (d # ds) a" and "length is = length (d # ds)"
  shows "at (d # ds) a is
         = (if hd is < d then call (d # ds) a is else Inl Assertion_failed)"
proof (cases ds)
  case Nil
  with assms obtain xs i where "a = Array1 xs" "is = [i]"
    by (cases a; cases "is") auto
  with Nil show ?thesis by simp
next
  case (Cons n ns)
  with assms obtain subs i j where "a = ArrayN subs" "is = i # j" "length j = length (n # ns)"
    by (cases a; cases "is") auto
  with Cons show ?thesis by simp
qed

lemma call_never_asserts: "call ds a is \<noteq> Inl Assertion_failed"
  by (induction ds a "is" rule: call.induct) (auto simp: subscript_def split: sum.splits)

text \<open>The assertion of \<open>at\<close> fails exactly when the first index is out of range,
  whatever the deeper indices are.\<close>

lemma at_assertion_iff:
  assumes "has_shape (d # ds) a" and "length is = length (d # ds)"
  shows "at (d # ds) a is = Inl Assertion_failed \<longleftrightarrow> \<not> hd is < d"
  using at_asserts_first_index [OF assms] call_never_asserts [of "d # ds" a "is"]
  by simp

text \<open>
  C1. The claim: \<open>a.at(i1, ..., iR)\<close> asserts \<open>i1 < d1\<close>, and the descent into the
  sub-arrays re-asserts each level's index, so that a call with \<open>i1 < d1\<close> and a deeper
  index out of range still fails an assertion. The code asserts \<open>i1 < d1\<close> and then
  enters the sub-array through its unchecked \<open>operator()\<close>: on the 2x3 array
  \<open>{{1, 2, 3}, {4, 5, 6}}\<close> the call \<open>at(2, 0)\<close> fails the assertion, while
  \<open>at(1, 5)\<close> passes \<open>assert(1 < 2)\<close> and subscripts the inner array of 3 elements at 5
  with no assertion failing; the rank-1 \<open>at\<close>, which would assert \<open>5 < 3\<close>, is not
  called.
\<close>

theorem at_leaves_deeper_index_unchecked:
  "at [2, 3] example_2x3 [1, 2] = Inr 6
   \<and> at [2, 3] example_2x3 [2, 0] = Inl Assertion_failed
   \<and> at [2, 3] example_2x3 [1, 5] = Inl Undefined_behaviour
   \<and> at [2, 3] example_2x3 [1, 5] \<noteq> Inl Assertion_failed
   \<and> at [3] (Array1 [4, 5, 6 :: int]) [5] = Inl Assertion_failed"
  by (simp add: example_2x3_def)

text \<open>
  C9. For every array \<open>a\<close> and every compile-time coordinate \<open>(I1, ..., IR)\<close> valid
  against the declared dimensions at each level, \<open>get<I1, ..., IR>(a)\<close> returns the
  element that the full-coordinate call \<open>a(I1, ..., IR)\<close> returns: both select
  \<open>sub_array_[I1]\<close>, then \<open>sub_array_[I2]\<close> of it, and so on, and both succeed.
\<close>

theorem get_agrees_with_call:
  "has_shape ds a \<Longrightarrow> in_bounds is ds \<Longrightarrow>
   (\<exists>x. call ds a is = Inr x \<and> get is ds a = Inr (Element x))"
proof (induction ds a "is" rule: call.induct)
  case (1 n xs i)
  then show ?case by (simp add: in_bounds_def)
next
  case (2 m n ns subs i j)
  from "2.prems" have len: "length j = length (n # ns)" and i: "i < m"
    and rest: "in_bounds j (n # ns)"
    by (auto simp: in_bounds_def dest: list_all2_lengthD)
  from "2.prems" i have sub: "has_shape (n # ns) (subs ! i)" and il: "i < length subs"
    by simp_all
  from len have ord: "length j + 1 = order (m # n # ns)" by simp
  from "2.IH" [OF ord, of "subs ! i"] il sub rest
  obtain x where x: "call (n # ns) (subs ! i) j = Inr x"
    "get j (n # ns) (subs ! i) = Inr (Element x)" by auto
  from len obtain j0 js where j: "j = j0 # js" by (cases j) auto
  from x ord il i len show ?case by (simp add: j)
qed (auto simp: in_bounds_def list_all2_Cons1 elim!: has_shape.elims)

theorem get_agrees_with_call_witness:
  "has_shape [2, 3] example_2x3 \<and> in_bounds [1, 2] [2, 3]
   \<and> call [2, 3] example_2x3 [1, 2] = Inr 6
   \<and> get [1, 2] [2, 3] example_2x3 = Inr (Element 6)"
proof -
  have s: "has_shape [2, 3] example_2x3" by (simp add: example_2x3_def)
  have b: "in_bounds [1, 2] [2, 3]" by (simp add: in_bounds_def)
  from get_agrees_with_call [OF s b] s b show ?thesis
    by (simp add: example_2x3_def)
qed

subsection \<open>Loops of the standard library\<close>

lemma traverse_eq:
  "first \<le> last_it \<Longrightarrow> last_it \<le> length xs \<Longrightarrow>
   traverse xs first last_it = Inr (take (last_it - first) (drop first xs))"
proof (induction xs first last_it rule: traverse.induct)
  case (1 xs first last_it)
  show ?case
  proof (cases "first = last_it")
    case True
    then show ?thesis by (subst traverse.simps) simp
  next
    case False
    with "1.prems" have lt: "first < last_it" "first < length xs" by auto
    then have ih: "traverse xs (Suc first) last_it
                   = Inr (take (last_it - Suc first) (drop (Suc first) xs))"
      using "1.IH" "1.prems" False by simp
    from lt have "take (last_it - first) (drop first xs)
          = xs ! first # take (last_it - Suc first) (drop (Suc first) xs)"
      by (simp add: Cons_nth_drop_Suc [symmetric] Suc_diff_Suc [symmetric] del: Suc_diff_Suc)
    with ih lt False show ?thesis by (subst traverse.simps) simp
  qed
qed

lemma traverse_reverse_eq:
  "k \<le> length xs \<Longrightarrow>
   traverse_reverse xs (Reverse_iterator k) (Reverse_iterator 0) = Inr (rev (take k xs))"
proof (induction k)
  case 0
  show ?case by (subst traverse_reverse.simps) simp
next
  case (Suc k)
  then have "traverse_reverse xs (Reverse_iterator k) (Reverse_iterator 0) = Inr (rev (take k xs))"
    by simp
  with Suc.prems show ?case
    by (subst traverse_reverse.simps) (simp add: take_Suc_conv_app_nth)
qed

lemma std_fill_eq:
  "first \<le> last_it \<Longrightarrow> last_it \<le> length xs \<Longrightarrow> conv v = Inr y \<Longrightarrow>
   std_fill conv first last_it v xs
   = Inr (take first xs @ replicate (last_it - first) y @ drop last_it xs)"
proof (induction conv first last_it v xs rule: std_fill.induct)
  case (1 conv first last_it v xs)
  show ?case
  proof (cases "first = last_it")
    case True
    then show ?thesis by (subst std_fill.simps) simp
  next
    case False
    with "1.prems" have lt: "first < last_it" "first < length xs" by auto
    have ih: "std_fill conv (Suc first) last_it v (xs[first := y])
              = Inr (take (Suc first) (xs[first := y]) @ replicate (last_it - Suc first) y
                     @ drop last_it (xs[first := y]))"
      using "1.IH" [OF False lt(2) "1.prems"(3)] lt "1.prems" by simp
    from lt have a: "take (Suc first) (xs[first := y]) = take first xs @ [y]"
      by (simp add: take_Suc_conv_app_nth)
    from lt have b: "drop last_it (xs[first := y]) = drop last_it xs" by simp
    from lt have c: "replicate (last_it - first) y = y # replicate (last_it - Suc first) y"
      by (cases "last_it - first") auto
    from ih a b c False lt "1.prems"(3) show ?thesis
      by (subst std_fill.simps) simp
  qed
qed

lemma std_fill_whole:
  "conv v = Inr y \<Longrightarrow> std_fill conv 0 (length xs) v xs = Inr (replicate (length xs) y)"
  using std_fill_eq [of 0 "length xs" xs conv v y] by simp

lemma has_shape_default_init: "ds \<noteq> [] \<Longrightarrow> has_shape ds (default_init ds d)"
  by (induction ds d rule: default_init.induct) auto

lemma fill_eq: "has_shape ds b \<Longrightarrow> fill d ds v b = Inr (default_init ds v)"
proof (induction ds arbitrary: b)
  case Nil
  then show ?case by simp
next
  case (Cons m ns)
  show ?case
  proof (cases ns)
    case Nil
    with Cons.prems obtain xs where "b = Array1 xs" "length xs = m"
      by (cases b) auto
    with Nil std_fill_whole [of Inr v v xs] show ?thesis by (simp add: begin_ma_def)
  next
    case (Cons n ns')
    with Cons.prems obtain subs where b: "b = ArrayN subs" "length subs = m"
      by (cases b) auto
    have "has_shape ns (default_init ns d)" using Cons by (simp add: has_shape_default_init)
    then have "multi_array_value d ns v = Inr (default_init ns v)"
      using Cons.IH by simp
    then have "std_fill (multi_array_value d ns) 0 (length subs) v subs
               = Inr (replicate (length subs) (default_init ns v))"
      by (rule std_fill_whole)
    with b Cons show ?thesis by (simp add: begin_ma_def)
  qed
qed

lemma call_default_init:
  "ds \<noteq> [] \<Longrightarrow> in_bounds is ds \<Longrightarrow> call ds (default_init ds v) is = Inr v"
proof (induction ds arbitrary: "is")
  case Nil
  then show ?case by simp
next
  case (Cons m ns)
  from Cons.prems obtain i j where ij: "is = i # j" "i < m" "in_bounds j ns"
    by (auto simp: in_bounds_def list_all2_Cons2)
  show ?case
  proof (cases ns)
    case Nil
    with ij show ?thesis by (simp add: in_bounds_def)
  next
    case (Cons n ns')
    from ij Cons have "length j = length (n # ns')"
      by (auto simp: in_bounds_def dest: list_all2_lengthD)
    with Cons.IH [OF _ ij(3)] ij Cons show ?thesis by simp
  qed
qed


subsection \<open>Broadcast, iteration, \<open>data\<close>\<close>

text \<open>
  C8. For every value \<open>v\<close>, the array constructed by broadcast from \<open>v\<close> reads \<open>v\<close> at
  every full coordinate; and for every array \<open>b\<close> in any prior state, \<open>b.fill(v)\<close>
  makes every coordinate equal \<open>v\<close>. Both run to completion, and the result has the
  declared shape.
\<close>

theorem broadcast_and_fill_set_every_coordinate:
  "ds \<noteq> [] \<Longrightarrow>
   (\<exists>a. multi_array_value d ds v = Inr a \<and> has_shape ds a
        \<and> (\<forall>is. in_bounds is ds \<longrightarrow> call ds a is = Inr v))
   \<and> (\<forall>b. has_shape ds b \<longrightarrow>
          (\<exists>a. fill d ds v b = Inr a \<and> has_shape ds a
               \<and> (\<forall>is. in_bounds is ds \<longrightarrow> call ds a is = Inr v)))"
proof -
  assume ds: "ds \<noteq> []"
  let ?a = "default_init ds v"
  have shape: "has_shape ds ?a" using ds by (rule has_shape_default_init)
  have reads: "\<forall>is. in_bounds is ds \<longrightarrow> call ds ?a is = Inr v"
    using ds by (simp add: call_default_init)
  have ctor: "multi_array_value d ds v = Inr ?a"
    using fill_eq [OF has_shape_default_init [OF ds], of d v d] by simp
  have "\<forall>b. has_shape ds b \<longrightarrow> fill d ds v b = Inr ?a"
    by (simp add: fill_eq)
  with ctor shape reads show ?thesis by blast
qed

theorem broadcast_and_fill_set_every_coordinate_witness:
  "[2, 3] \<noteq> ([] :: nat list) \<and> has_shape [2, 3] example_2x3 \<and> in_bounds [1, 2] [2, 3]
   \<and> fill 0 [2, 3] 7 example_2x3 = Inr (ArrayN [Array1 [7, 7, 7], Array1 [7, 7, 7]])
   \<and> multi_array_value (0 :: int) [2, 3] 7 = Inr (ArrayN [Array1 [7, 7, 7], Array1 [7, 7, 7]])
   \<and> call [2, 3] (ArrayN [Array1 [7, 7, 7], Array1 [7, 7, 7 :: int]]) [1, 2] = Inr 7"
proof -
  have ne: "[2, 3] \<noteq> ([] :: nat list)" by simp
  have s: "has_shape [2, 3] example_2x3" by (simp add: example_2x3_def)
  have b: "in_bounds [1, 2] [2, 3]" by (simp add: in_bounds_def)
  from broadcast_and_fill_set_every_coordinate [OF ne, of "0 :: int" 7]
  obtain a c where a: "multi_array_value (0 :: int) [2, 3] 7 = Inr a"
      "\<forall>is. in_bounds is [2, 3] \<longrightarrow> call [2, 3] a is = Inr 7"
    and c: "fill 0 [2, 3] 7 example_2x3 = Inr c"
      "\<forall>is. in_bounds is [2, 3] \<longrightarrow> call [2, 3] c is = Inr 7"
    using s by blast
  have e: "multi_array_value (0 :: int) [2, 3] 7 = Inr (ArrayN [Array1 [7, 7, 7], Array1 [7, 7, 7]])"
    by code_simp
  have f: "fill 0 [2, 3] 7 example_2x3 = Inr (ArrayN [Array1 [7, 7, 7], Array1 [7, 7, 7]])"
    by code_simp
  from a e have "call [2, 3] (ArrayN [Array1 [7, 7, 7], Array1 [7, 7, 7 :: int]]) [1, 2] = Inr 7"
    using b by auto
  with ne s b e f show ?thesis by blast
qed

lemma slots_index:
  "has_shape (d # ds) a \<Longrightarrow> i < d \<Longrightarrow> operator_index (d # ds) a i = Inr (slots a ! i)"
  by (cases "(d # ds, a, i)" rule: operator_index.cases) auto

lemma length_slots: "has_shape (d # ds) a \<Longrightarrow> length (slots a) = d"
  by (cases "(d # ds, a)" rule: has_shape.cases) auto

lemma end_ma_outermost: "end_ma (d # ds) = d"
  by (cases ds) simp_all

lemma forward_iteration:
  assumes "has_shape (d # ds) a"
  shows "iterate (d # ds) a = Inr (slots a)"
    and "length (slots a) = d"
    and "\<forall>i<d. operator_index (d # ds) a i = Inr (slots a ! i)"
proof -
  show len: "length (slots a) = d" using assms by (rule length_slots)
  show "iterate (d # ds) a = Inr (slots a)"
    using traverse_eq [of 0 d "slots a"] len
    by (simp add: iterate_def begin_ma_def end_ma_outermost)
  show "\<forall>i<d. operator_index (d # ds) a i = Inr (slots a ! i)"
    using assms by (simp add: slots_index)
qed

lemma reverse_iterators_of_the_bodies:
  "has_shape (d # ds) a \<Longrightarrow>
   traverse_reverse (slots a) (Reverse_iterator (end_ma (d # ds)))
     (Reverse_iterator (begin_ma (d # ds))) = Inr (rev (slots a))"
  using traverse_reverse_eq [of d "slots a"]
  by (simp add: length_slots end_ma_outermost begin_ma_def)

lemma rbegin_rend_ill_formed:
  "rbegin ds = Inl Ill_formed" "rend ds = Inl Ill_formed" "iterate_reverse ds a = Inl Ill_formed"
  by (simp_all add: rbegin_def rend_def iterate_reverse_def return_as_iterator_def)

text \<open>
  C3. The claim: forward iteration from \<open>begin()\<close> to \<open>end()\<close> visits the \<open>d1\<close>
  outermost slots in order, and reverse iteration from \<open>rbegin()\<close> to \<open>rend()\<close> visits
  them in the opposite order. Forward iteration does (\<open>forward_iteration\<close>), and the
  reverse iterators that the bodies of \<open>rbegin\<close> and \<open>rend\<close> build would
  (\<open>reverse_iterators_of_the_bodies\<close>); but both functions are declared to return
  \<open>iterator\<close>, a pointer, to which a \<open>std::reverse_iterator\<close> does not convert: a
  program that calls \<open>rbegin()\<close> or \<open>rend()\<close> is rejected by the compiler, and no
  reverse sequence exists.
\<close>

theorem reverse_iteration_does_not_compile:
  "iterate [3] (Array1 [1, 2, 3 :: int]) = Inr [Element 1, Element 2, Element 3]
   \<and> rbegin [3] = Inl Ill_formed \<and> rend [3] = Inl Ill_formed
   \<and> iterate_reverse [3] (Array1 [1, 2, 3 :: int]) = Inl Ill_formed
   \<and> iterate_reverse [2, 3] example_2x3 = Inl Ill_formed"
  by (simp add: rbegin_def rend_def iterate_reverse_def return_as_iterator_def
      iterate_def begin_ma_def traverse.simps)

lemma data_first_scalar: "ds \<noteq> [] \<Longrightarrow> data ds = replicate (length ds) 0"
  by (induction ds rule: data.induct) auto

text \<open>
  C2, as the code has it. \<open>data()\<close> returns a pointer to \<open>T\<close> at every rank: at rank 1
  it points to the first of the contiguous elements, the slot \<open>a[0]\<close>; at rank
  \<open>R \<ge> 2\<close> it is \<open>data()\<close> of the first sub-array, and so points to the first scalar
  \<open>a(0, ..., 0)\<close>, not to the sub-array \<open>a[0]\<close>.
\<close>

theorem data_points_to_first_scalar:
  "has_shape ds a \<Longrightarrow> 0 \<notin> set ds \<Longrightarrow>
   pointee_type ds (data ds) = []
   \<and> (\<exists>x. deref a (data ds) = Inr (Element x)
          \<and> call ds a (replicate (length ds) 0) = Inr x)
   \<and> (length ds = 1 \<longrightarrow> deref a (data ds) = operator_index ds a 0)"
proof (induction ds a rule: has_shape.induct)
  case (1 n xs)
  then show ?case by (simp add: pointee_type_def)
next
  case (2 m n ns subs)
  from "2.prems" have m: "0 < m" "0 < length subs" and sub: "has_shape (n # ns) (subs ! 0)"
    and pos: "0 \<notin> set (n # ns)" and mem: "subs ! 0 \<in> set subs"
    by auto
  from "2.IH" [OF mem sub pos]
  obtain x where x: "deref (subs ! 0) (data (n # ns)) = Inr (Element x)"
    "call (n # ns) (subs ! 0) (replicate (length (n # ns)) 0) = Inr x"
    and ty: "pointee_type (n # ns) (data (n # ns)) = []"
    by auto
  from ty have "pointee_type (m # n # ns) (data (m # n # ns)) = []"
    by (simp add: pointee_type_def)
  with x m show ?case by simp
qed simp_all

theorem data_points_to_first_scalar_witness:
  "has_shape [2, 3] example_2x3 \<and> 0 \<notin> set [2, 3 :: nat]
   \<and> pointee_type [2, 3] (data [2, 3]) = []
   \<and> deref example_2x3 (data [2, 3]) = Inr (Element 1)
   \<and> call [2, 3] example_2x3 [0, 0] = Inr 1"
proof -
  have s: "has_shape [2, 3] example_2x3" by (simp add: example_2x3_def)
  have p: "0 \<notin> set [2, 3 :: nat]" by simp
  from data_points_to_first_scalar [OF s p] s p show ?thesis
    by (simp add: example_2x3_def)
qed

text \<open>
  C2, as the claim states it, fails at rank 2: on the 2x3 array \<open>{{1, 2, 3}, {4, 5, 6}}\<close>
  what \<open>data()\<close> points to is the scalar 1 and not the first sub-array \<open>{1, 2, 3}\<close>.
\<close>

theorem data_does_not_point_to_first_sub_array:
  "operator_index [2, 3] example_2x3 0 = Inr (Sub_array (Array1 [1, 2, 3]))
   \<and> deref example_2x3 (data [2, 3]) = Inr (Element 1)
   \<and> deref example_2x3 (data [2, 3]) \<noteq> operator_index [2, 3] example_2x3 0
   \<and> pointee_type [2, 3] (data [2, 3]) \<noteq> [3]"
  by (simp add: example_2x3_def pointee_type_def)

subsection \<open>Comparison\<close>

lemma eq_loop_eq:
  assumes "length lhs = m" and "length rhs = m"
    and "\<forall>k<m. ne (lhs ! k) (rhs ! k) = Inr (f (lhs ! k) (rhs ! k))"
  shows "eq_loop ne i m lhs rhs = Inr (\<forall>k. i \<le> k \<and> k < m \<longrightarrow> \<not> f (lhs ! k) (rhs ! k))"
proof (induction "m - i" arbitrary: i)
  case 0
  then have "\<not> i < m" by simp
  then show ?case by (subst eq_loop.simps) auto
next
  case (Suc j)
  then have i: "i < m" and j: "j = m - Suc i" by auto
  from Suc.hyps(1) [OF j]
  have ih: "eq_loop ne (Suc i) m lhs rhs
            = Inr (\<forall>k. Suc i \<le> k \<and> k < m \<longrightarrow> \<not> f (lhs ! k) (rhs ! k))" .
  have split: "(\<forall>k. i \<le> k \<and> k < m \<longrightarrow> \<not> f (lhs ! k) (rhs ! k))
      \<longleftrightarrow> \<not> f (lhs ! i) (rhs ! i) \<and> (\<forall>k. Suc i \<le> k \<and> k < m \<longrightarrow> \<not> f (lhs ! k) (rhs ! k))"
  proof -
    have "\<And>k. i \<le> k \<longleftrightarrow> k = i \<or> Suc i \<le> k" by auto
    with i show ?thesis by auto
  qed
  from assms i have "ne (lhs ! i) (rhs ! i) = Inr (f (lhs ! i) (rhs ! i))" by simp
  with assms(1,2) i ih split show ?case
    by (subst eq_loop.simps) simp
qed


lemma operator_eq_total:
  "has_shape ds a \<Longrightarrow> has_shape ds b \<Longrightarrow> \<exists>r. operator_eq ne_T ds a b = Inr r"
proof (induction ds arbitrary: a b)
  case Nil
  then show ?case by simp
next
  case (Cons m ns)
  show ?case
  proof (cases ns)
    case Nil
    with Cons.prems obtain xs ys where "a = Array1 xs" "b = Array1 ys"
      "length xs = m" "length ys = m"
      by (cases a; cases b) auto
    with Nil eq_loop_eq [of xs m ys "\<lambda>x y. Inr (ne_T x y)" ne_T 0] show ?thesis by simp
  next
    case (Cons n ns')
    with Cons.prems obtain xs ys where ab: "a = ArrayN xs" "b = ArrayN ys"
      "length xs = m" "length ys = m"
      "\<forall>s \<in> set xs. has_shape ns s" "\<forall>s \<in> set ys. has_shape ns s"
      by (cases a; cases b) auto
    let ?f = "\<lambda>s t. operator_ne ne_T ns s t = Inr True"
    have "\<forall>k<m. operator_ne ne_T ns (xs ! k) (ys ! k) = Inr (?f (xs ! k) (ys ! k))"
    proof (intro allI impI)
      fix k assume "k < m"
      with ab have "has_shape ns (xs ! k)" "has_shape ns (ys ! k)" by auto
      from Cons.IH [OF this] obtain r where "operator_eq ne_T ns (xs ! k) (ys ! k) = Inr r" ..
      then show "operator_ne ne_T ns (xs ! k) (ys ! k) = Inr (?f (xs ! k) (ys ! k))" by simp
    qed
    from eq_loop_eq [OF ab(3,4) this, of 0] ab Cons show ?thesis
      by (simp del: operator_ne.simps)
  qed
qed

lemma operator_eq_slots:
  assumes "has_shape (d # ds) a" and "has_shape (d # ds) b"
  shows "operator_eq (\<lambda>x y. \<not> eq_T x y) (d # ds) a b
         = Inr (\<forall>i<d. slots_equal eq_T ds (slots a ! i) (slots b ! i))"
proof -
  let ?ne = "\<lambda>x y. \<not> eq_T x y"
  show ?thesis
  proof (cases ds)
    case Nil
    with assms obtain xs ys where ab: "a = Array1 xs" "b = Array1 ys"
      "length xs = d" "length ys = d"
      by (cases a; cases b) auto
    from eq_loop_eq [of xs d ys "\<lambda>x y. Inr (?ne x y)" ?ne 0] ab Nil show ?thesis by simp
  next
    case (Cons n ns)
    with assms obtain xs ys where ab: "a = ArrayN xs" "b = ArrayN ys"
      "length xs = d" "length ys = d"
      "\<forall>s \<in> set xs. has_shape ds s" "\<forall>s \<in> set ys. has_shape ds s"
      by (cases a; cases b) auto
    let ?f = "\<lambda>s t. operator_eq ?ne ds s t \<noteq> Inr True"
    have "\<forall>k<d. operator_ne ?ne ds (xs ! k) (ys ! k) = Inr (?f (xs ! k) (ys ! k))"
    proof (intro allI impI)
      fix k assume "k < d"
      with ab have "has_shape ds (xs ! k)" "has_shape ds (ys ! k)" by auto
      from operator_eq_total [OF this] obtain r where "operator_eq ?ne ds (xs ! k) (ys ! k) = Inr r" ..
      then show "operator_ne ?ne ds (xs ! k) (ys ! k) = Inr (?f (xs ! k) (ys ! k))" by simp
    qed
    from eq_loop_eq [OF ab(3,4) this, of 0] ab Cons show ?thesis
      by (simp del: operator_ne.simps)
  qed
qed

text \<open>
  C5. For two arrays \<open>a\<close> and \<open>b\<close> of the same element type and dimension list,
  \<open>a == b\<close> returns true iff for every outermost index \<open>i\<close> the slots \<open>a[i]\<close> and
  \<open>b[i]\<close> compare equal under the same rule, down to the equality of \<open>T\<close> at rank 1;
  and \<open>a != b\<close> returns the negation of \<open>a == b\<close>. The element type is one whose
  \<open>!=\<close> is the negation of its \<open>==\<close>, \<open>eq_T\<close>.
\<close>

theorem equality_is_slotwise:
  assumes "has_shape (d # ds) a" and "has_shape (d # ds) b"
  shows "operator_eq (\<lambda>x y. \<not> eq_T x y) (d # ds) a b
           = Inr (\<forall>i<d. slots_equal eq_T ds (slots a ! i) (slots b ! i))
         \<and> operator_ne (\<lambda>x y. \<not> eq_T x y) (d # ds) a b
           = Inr (\<not> (\<forall>i<d. slots_equal eq_T ds (slots a ! i) (slots b ! i)))
         \<and> (\<forall>i<d. operator_index (d # ds) a i = Inr (slots a ! i)
                  \<and> operator_index (d # ds) b i = Inr (slots b ! i))"
proof -
  have eq: "operator_eq (\<lambda>x y. \<not> eq_T x y) (d # ds) a b
            = Inr (\<forall>i<d. slots_equal eq_T ds (slots a ! i) (slots b ! i))"
    using assms by (rule operator_eq_slots)
  then have "operator_ne (\<lambda>x y. \<not> eq_T x y) (d # ds) a b
           = Inr (\<not> (\<forall>i<d. slots_equal eq_T ds (slots a ! i) (slots b ! i)))"
    by simp
  moreover have "\<forall>i<d. operator_index (d # ds) a i = Inr (slots a ! i)
                  \<and> operator_index (d # ds) b i = Inr (slots b ! i)"
    using assms by (simp add: slots_index)
  ultimately show ?thesis using eq by blast
qed

theorem equality_is_slotwise_witness:
  "has_shape [2, 3] example_2x3
   \<and> has_shape [2, 3] (ArrayN [Array1 [1, 2, 3], Array1 [4, 5, 7 :: int]])
   \<and> operator_eq (\<lambda>x y. \<not> x = y) [2, 3] example_2x3 example_2x3 = Inr True
   \<and> operator_ne (\<lambda>x y. \<not> x = y) [2, 3] example_2x3 example_2x3 = Inr False
   \<and> operator_eq (\<lambda>x y. \<not> x = y) [2, 3] example_2x3
        (ArrayN [Array1 [1, 2, 3], Array1 [4, 5, 7]]) = Inr False
   \<and> operator_ne (\<lambda>x y. \<not> x = y) [2, 3] example_2x3
        (ArrayN [Array1 [1, 2, 3], Array1 [4, 5, 7]]) = Inr True"
proof -
  let ?b = "ArrayN [Array1 [1, 2, 3], Array1 [4, 5, 7 :: int]]"
  have s: "has_shape [2, 3] example_2x3" by (simp add: example_2x3_def)
  have t: "has_shape [2, 3] ?b" by simp
  have same: "\<forall>i<2. slots_equal (=) [3] (slots example_2x3 ! i) (slots example_2x3 ! i)"
    by (auto simp: example_2x3_def less_2_cases_iff eq_loop.simps)
  have differ: "\<not> (\<forall>i<2. slots_equal (=) [3] (slots example_2x3 ! i) (slots ?b ! i))"
    by (auto simp: example_2x3_def less_2_cases_iff eq_loop.simps)
  from equality_is_slotwise [OF s s, of "(=)"] equality_is_slotwise [OF s t, of "(=)"]
    s t same differ
  show ?thesis by simp
qed

subsection \<open>Construction from a nested initializer list\<close>

lemma std_copy_eq:
  assumes "\<forall>x \<in> set src. conv x = (if p x then Inr (f x) else Inl Assertion_failed)"
    and "k + length src \<le> length dst"
  shows "std_copy conv src k dst
         = (if \<forall>x \<in> set src. p x
            then Inr (take k dst @ map f src @ drop (k + length src) dst)
            else Inl Assertion_failed)"
  using assms
proof (induction src arbitrary: k dst)
  case Nil
  then show ?case by simp
next
  case (Cons x src)
  show ?case
  proof (cases "p x")
    case False
    with Cons.prems show ?thesis by simp
  next
    case True
    from Cons.prems have k: "k < length dst" by simp
    from Cons.prems have "std_copy conv src (Suc k) (dst[k := f x])
         = (if \<forall>x \<in> set src. p x
            then Inr (take (Suc k) (dst[k := f x]) @ map f src
                      @ drop (Suc k + length src) (dst[k := f x]))
            else Inl Assertion_failed)"
      by (intro Cons.IH) simp_all
    moreover from k have "take (Suc k) (dst[k := f x]) = take k dst @ [f x]"
      by (simp add: take_Suc_conv_app_nth)
    moreover have "drop (Suc k + length src) (dst[k := f x]) = drop (Suc k + length src) dst"
      by simp
    ultimately show ?thesis using True Cons.prems k by simp
  qed
qed

lemma std_copy_whole:
  assumes "\<forall>x \<in> set src. conv x = (if p x then Inr (f x) else Inl Assertion_failed)"
    and "length dst = length src"
  shows "std_copy conv src 0 dst
         = (if \<forall>x \<in> set src. p x then Inr (map f src) else Inl Assertion_failed)"
  using std_copy_eq [OF assms(1), of 0 dst] assms(2) by simp

lemma multi_array_init_eq:
  "initializer_typed ds init \<Longrightarrow>
   multi_array_init d ds init
   = (if initializer_matches ds init then Inr (literal_array init) else Inl Assertion_failed)"
proof (induction ds arbitrary: init)
  case Nil
  then show ?case by simp
next
  case (Cons m ns)
  show ?case
  proof (cases ns)
    case Nil
    with Cons.prems obtain xs where init: "init = Initializer1 xs"
      by (cases init) auto
    have "std_copy Inr xs 0 (replicate (length xs) d) = Inr (map (\<lambda>x. x) xs)"
      using std_copy_whole [of xs Inr "\<lambda>x. True" "\<lambda>x. x" "replicate (length xs) d"] by simp
    with init Nil show ?thesis by (auto simp: begin_ma_def)
  next
    case (Cons n ns')
    with Cons.prems obtain ls where init: "init = InitializerN ls"
      and typed: "\<forall>l \<in> set ls. initializer_typed ns l"
      by (cases init) auto
    from typed Cons.IH
    have conv: "\<forall>l \<in> set ls. multi_array_init d ns l
                = (if initializer_matches ns l then Inr (literal_array l) else Inl Assertion_failed)"
      by simp
    have "std_copy (multi_array_init d ns) ls 0 (replicate (length ls) (default_init ns d))
          = (if \<forall>l \<in> set ls. initializer_matches ns l then Inr (map literal_array ls)
             else Inl Assertion_failed)"
      by (rule std_copy_whole [OF conv]) simp
    with init Cons show ?thesis by auto
  qed
qed

lemma has_shape_literal_array:
  "initializer_matches ds init \<Longrightarrow> has_shape ds (literal_array init)"
  by (induction ds init rule: initializer_matches.induct) auto

lemma call_literal_array:
  "initializer_matches ds init \<Longrightarrow> in_bounds is ds \<Longrightarrow>
   \<exists>x. call ds (literal_array init) is = Inr x \<and> initializer_at init is = Some x"
proof (induction ds init arbitrary: "is" rule: initializer_matches.induct)
  case (1 n xs)
  then show ?case by (auto simp: in_bounds_def list_all2_Cons2)
next
  case (2 m n ns ls)
  from "2.prems" obtain i j where ij: "is = i # j" "i < m" "in_bounds j (n # ns)"
    by (auto simp: in_bounds_def list_all2_Cons2)
  then have len: "length j = length (n # ns)"
    by (auto simp: in_bounds_def dest: list_all2_lengthD)
  from "2.prems" ij have "ls ! i \<in> set ls" "initializer_matches (n # ns) (ls ! i)" "i < length ls"
    by auto
  from "2.IH" [OF this(1,2) ij(3)] this(3) ij len show ?case by simp
qed simp_all

text \<open>
  C6. Constructing \<open>multi_array<T, d1, ..., dR>\<close> from a nested literal checks, at each
  nesting level, that the length of the literal equals the declared dimension of that
  level: a mismatch at any level fails an assertion; when every level matches,
  construction succeeds and the element at every coordinate \<open>(i1, ..., iR)\<close> is the
  literal's element at the same nested position.
\<close>

theorem nested_initializer_construction:
  "initializer_typed ds init \<Longrightarrow>
   (initializer_matches ds init \<longrightarrow>
      (\<exists>a. multi_array_init d ds init = Inr a \<and> has_shape ds a
           \<and> (\<forall>is. in_bounds is ds \<longrightarrow>
                 (\<exists>x. call ds a is = Inr x \<and> initializer_at init is = Some x))))
   \<and> (\<not> initializer_matches ds init \<longrightarrow> multi_array_init d ds init = Inl Assertion_failed)"
  by (simp add: multi_array_init_eq has_shape_literal_array call_literal_array)

theorem nested_initializer_construction_witness:
  "initializer_typed [2, 3] (InitializerN [Initializer1 [1, 2, 3], Initializer1 [4, 5, 6 :: int]])
   \<and> initializer_matches [2, 3] (InitializerN [Initializer1 [1, 2, 3], Initializer1 [4, 5, 6 :: int]])
   \<and> multi_array_init 0 [2, 3] (InitializerN [Initializer1 [1, 2, 3], Initializer1 [4, 5, 6]])
       = Inr example_2x3
   \<and> call [2, 3] example_2x3 [1, 2] = Inr 6
   \<and> initializer_at (InitializerN [Initializer1 [1, 2, 3], Initializer1 [4, 5, 6 :: int]]) [1, 2]
       = Some 6
   \<and> initializer_typed [2, 3] (InitializerN [Initializer1 [1, 2, 3], Initializer1 [4, 5 :: int]])
   \<and> \<not> initializer_matches [2, 3] (InitializerN [Initializer1 [1, 2, 3], Initializer1 [4, 5 :: int]])
   \<and> multi_array_init 0 [2, 3] (InitializerN [Initializer1 [1, 2, 3], Initializer1 [4, 5 :: int]])
       = Inl Assertion_failed
   \<and> multi_array_init 0 [2, 3] (InitializerN [Initializer1 [1, 2, 3 :: int]])
       = Inl Assertion_failed"
proof -
  let ?good = "InitializerN [Initializer1 [1, 2, 3], Initializer1 [4, 5, 6 :: int]]"
  let ?bad = "InitializerN [Initializer1 [1, 2, 3], Initializer1 [4, 5 :: int]]"
  have tg: "initializer_typed [2, 3] ?good" and tb: "initializer_typed [2, 3] ?bad" by simp_all
  have mg: "initializer_matches [2, 3] ?good" and mb: "\<not> initializer_matches [2, 3] ?bad"
    by simp_all
  have outer: "multi_array_init 0 [2, 3] (InitializerN [Initializer1 [1, 2, 3 :: int]])
       = Inl Assertion_failed" by simp
  have made: "multi_array_init 0 [2, 3] ?good = Inr example_2x3"
    by code_simp
  from nested_initializer_construction [OF tg, of 0] nested_initializer_construction [OF tb, of 0]
    tg tb mg mb outer made
  show ?thesis by (simp add: example_2x3_def)
qed

subsection \<open>Conversion from a built-in array\<close>

lemma multi_array_for_extents: "multi_array_for t = extents t"
proof (induction t)
  case Scalar
  show ?case by (simp add: multi_array_for_def)
next
  case (Array t n)
  have "map (extent (Array t n)) [0..<Suc (rank t)]
        = extent (Array t n) 0 # map (\<lambda>i. extent (Array t n) (Suc i)) [0..<rank t]"
    by (rule map_upt_Suc)
  with Array show ?case by (simp add: multi_array_for_def)
qed

lemma length_concat_chunks:
  "\<forall>x \<in> set xs. length (f x) = sz \<Longrightarrow> length (concat (map f xs)) = length xs * sz"
  by (induction xs) simp_all

lemma length_c_storage:
  "c_has_type t a \<Longrightarrow> length (c_storage a) = prod_list (extents t)"
proof (induction t a rule: c_has_type.induct)
  case (2 t n xs)
  then have "\<forall>x \<in> set xs. length (c_storage x) = prod_list (extents t)" by simp
  from length_concat_chunks [OF this] "2.prems" show ?case by simp
qed simp_all

lemma length_storage_default_init:
  "ds \<noteq> [] \<Longrightarrow> length (storage (default_init ds d)) = prod_list ds"
proof (induction ds d rule: default_init.induct)
  case (2 m v va d)
  then have "\<forall>x \<in> set (replicate m (default_init (v # va) d)).
               length (storage x) = prod_list (v # va)" by simp
  from length_concat_chunks [OF this] show ?case by simp
qed simp_all

lemma address_data: "address ds (data ds) = 0"
proof (induction ds)
  case Nil
  show ?case by simp
next
  case (Cons d ds)
  then show ?case by (cases ds) simp_all
qed

lemma copy_n_eq:
  "i + n \<le> length src \<Longrightarrow> k + n \<le> length dst \<Longrightarrow>
   copy_n src i n dst k = Inr (take k dst @ take n (drop i src) @ drop (k + n) dst)"
proof (induction n arbitrary: i k dst)
  case 0
  show ?case by simp
next
  case (Suc n)
  then have i: "i < length src" and k: "k < length dst" by simp_all
  from Suc.prems have "copy_n src (Suc i) n (dst[k := src ! i]) (Suc k)
      = Inr (take (Suc k) (dst[k := src ! i]) @ take n (drop (Suc i) src)
             @ drop (Suc k + n) (dst[k := src ! i]))"
    by (intro Suc.IH) simp_all
  moreover from k have "take (Suc k) (dst[k := src ! i]) = take k dst @ [src ! i]"
    by (simp add: take_Suc_conv_app_nth)
  moreover have "drop (Suc k + n) (dst[k := src ! i]) = drop (Suc k + n) dst" by simp
  moreover from i have "take (Suc n) (drop i src) = src ! i # take n (drop (Suc i) src)"
    by (simp add: Cons_nth_drop_Suc [symmetric])
  ultimately show ?case using i k by simp
qed

lemma copy_n_whole:
  "length dst = length src \<Longrightarrow> copy_n src 0 (length src) dst 0 = Inr src"
  using copy_n_eq [of 0 "length src" src 0 dst] by simp

lemma chunk_of_concat:
  "\<forall>x \<in> set xs. length (f x) = sz \<Longrightarrow> i < length xs \<Longrightarrow>
   take sz (drop (i * sz) (concat (map f xs))) = f (xs ! i)"
proof (induction xs arbitrary: i)
  case Nil
  then show ?case by simp
next
  case (Cons x xs)
  show ?case
  proof (cases i)
    case 0
    with Cons.prems show ?thesis by simp
  next
    case (Suc j)
    with Cons.prems have "take sz (drop (j * sz) (concat (map f xs))) = f (xs ! j)"
      by (intro Cons.IH) simp_all
    with Suc Cons.prems show ?thesis by simp
  qed
qed

lemma of_storage_nth:
  "ns \<noteq> [] \<Longrightarrow> i < m \<Longrightarrow>
   of_storage (m # ns) mem
   = ArrayN (map (\<lambda>k. of_storage ns (take (prod_list ns) (drop (k * prod_list ns) mem))) [0..<m])"
  by (cases ns) simp_all

lemma scalar_storage:
  "\<forall>x \<in> set xs. c_has_type Scalar x \<Longrightarrow> i < length xs \<Longrightarrow>
   c_subscript (xs ! i) [] = Inr (concat (map c_storage xs) ! i)"
proof (induction xs arbitrary: i)
  case Nil
  then show ?case by simp
next
  case (Cons x xs)
  from Cons.prems obtain v where x: "x = Value v" by (cases x) auto
  show ?case
  proof (cases i)
    case 0
    with x show ?thesis by simp
  next
    case (Suc j)
    with Cons.prems Cons.IH [of j] x show ?thesis by simp
  qed
qed

lemma call_of_storage:
  "c_has_type t a \<Longrightarrow> t \<noteq> Scalar \<Longrightarrow> in_bounds is (extents t) \<Longrightarrow>
   \<exists>x. call (extents t) (of_storage (extents t) (c_storage a)) is = Inr x
       \<and> c_subscript a is = Inr x"
proof (induction t arbitrary: a "is")
  case Scalar
  then show ?case by simp
next
  case (Array t n)
  from Array.prems obtain xs where a: "a = Elements xs" "length xs = n"
    and typed: "\<forall>x \<in> set xs. c_has_type t x"
    by (cases a) auto
  from Array.prems obtain i j where ij: "is = i # j" "i < n" "in_bounds j (extents t)"
    by (auto simp: in_bounds_def list_all2_Cons2)
  show ?case
  proof (cases t)
    case Scalar
    with ij have j: "j = []" by (simp add: in_bounds_def)
    from typed Scalar have "\<forall>x \<in> set xs. length (c_storage x) = 1"
      using length_c_storage [of Scalar] by auto
    from length_concat_chunks [OF this]
    have len: "length (concat (map c_storage xs)) = length xs" by simp
    from typed Scalar a ij have "c_subscript (xs ! i) [] = Inr (concat (map c_storage xs) ! i)"
      by (intro scalar_storage) simp_all
    with Scalar a ij j len show ?thesis by simp
  next
    case (Array t' n')
    let ?sz = "prod_list (extents t)"
    from typed have chunks: "\<forall>x \<in> set xs. length (c_storage x) = ?sz"
      by (simp add: length_c_storage)
    from a ij have mem: "xs ! i \<in> set xs" and il: "i < length xs" by simp_all
    from chunk_of_concat [OF chunks il]
    have chunk: "take ?sz (drop (i * ?sz) (concat (map c_storage xs))) = c_storage (xs ! i)" .
    from ij have len: "length j = length (extents t)"
      by (auto simp: in_bounds_def dest: list_all2_lengthD)
    from Array have ne: "t \<noteq> Scalar" by simp
    from typed mem have "c_has_type t (xs ! i)" by simp
    from Array.IH [OF this ne ij(3)]
    obtain x where x: "call (extents t) (of_storage (extents t) (c_storage (xs ! i))) j = Inr x"
      "c_subscript (xs ! i) j = Inr x" by auto
    from Array have ext: "extents t = n' # extents t'" by simp
    have "call (n # extents t) (of_storage (n # extents t) (c_storage a)) (i # j) = Inr x"
      using x(1) chunk a ij len ext by simp
    with x(2) a ij il show ?thesis by simp
  qed
qed

lemma has_shape_of_storage:
  "ds \<noteq> [] \<Longrightarrow> length mem = prod_list ds \<Longrightarrow> has_shape ds (of_storage ds mem)"
proof (induction ds arbitrary: mem)
  case Nil
  then show ?case by simp
next
  case (Cons m ns)
  show ?case
  proof (cases ns)
    case Nil
    with Cons.prems show ?thesis by simp
  next
    case (Cons n ns')
    let ?sz = "prod_list ns"
    have "has_shape ns (of_storage ns (take ?sz (drop (k * ?sz) mem)))" if "k < m" for k
    proof -
      from that have "Suc k \<le> m" by simp
      then have "Suc k * ?sz \<le> m * ?sz" by (rule mult_le_mono1)
      with Cons.prems have "k * ?sz + ?sz \<le> length mem" by simp
      then have "length (take ?sz (drop (k * ?sz) mem)) = ?sz" by simp
      with Cons.IH Cons show ?thesis by simp
    qed
    with Cons show ?thesis by simp
  qed
qed

lemma concat_chunks:
  "concat (map (\<lambda>k. take sz (drop (k * sz) mem)) [0..<m]) = take (m * sz) mem"
proof (induction m)
  case 0
  show ?case by simp
next
  case (Suc m)
  have "take (m * sz) mem @ take sz (drop (m * sz) mem) = take (m * sz + sz) mem"
    by (simp add: take_add)
  with Suc show ?case by (simp add: add.commute)
qed

lemma storage_of_storage:
  "ds \<noteq> [] \<Longrightarrow> length mem = prod_list ds \<Longrightarrow> storage (of_storage ds mem) = mem"
proof (induction ds arbitrary: mem)
  case Nil
  then show ?case by simp
next
  case (Cons m ns)
  show ?case
  proof (cases ns)
    case Nil
    with Cons.prems show ?thesis by simp
  next
    case (Cons n ns')
    let ?sz = "prod_list ns"
    have "storage (of_storage ns (take ?sz (drop (k * ?sz) mem))) = take ?sz (drop (k * ?sz) mem)"
      if "k < m" for k
    proof -
      from that have "Suc k \<le> m" by simp
      then have "Suc k * ?sz \<le> m * ?sz" by (rule mult_le_mono1)
      with Cons.prems have "k * ?sz + ?sz \<le> length mem" by simp
      then have "length (take ?sz (drop (k * ?sz) mem)) = ?sz" by simp
      with Cons.IH Cons show ?thesis by simp
    qed
    then have meq: "map (\<lambda>k. storage (of_storage ns (take ?sz (drop (k * ?sz) mem)))) [0..<m]
               = map (\<lambda>k. take ?sz (drop (k * ?sz) mem)) [0..<m]"
      by simp
    have "storage (of_storage (m # ns) mem)
          = concat (map (\<lambda>k. storage (of_storage ns (take ?sz (drop (k * ?sz) mem)))) [0..<m])"
      using Cons by (simp add: comp_def)
    also have "\<dots> = concat (map (\<lambda>k. take ?sz (drop (k * ?sz) mem)) [0..<m])"
      by (simp only: meq)
    also have "\<dots> = take (m * ?sz) mem" by (rule concat_chunks)
    finally show ?thesis using Cons.prems by simp
  qed
qed

text \<open>
  C7. For every value \<open>a\<close> of a built-in array type, \<open>to_multi_array(a)\<close> produces a
  container of the inferred shape, the extents of the type, whose element at every
  coordinate \<open>(i1, ..., iR)\<close> is the element of \<open>a\<close> at the same coordinate: every
  scalar is copied, in row-major order. The type has at least one extent, and fewer
  than \<open>2 ^ 64\<close> elements, as every array object has.
\<close>

theorem to_multi_array_copies_every_element:
  assumes "c_has_type t a" and "t \<noteq> Scalar" and "prod_list (extents t) < size_t_modulus"
  shows "\<exists>r. to_multi_array d t a = Inr r \<and> has_shape (extents t) r
             \<and> storage r = c_storage a
             \<and> (\<forall>is. in_bounds is (extents t) \<longrightarrow>
                   (\<exists>x. call (extents t) r is = Inr x \<and> c_subscript a is = Inr x))"
proof -
  let ?ds = "extents t"
  let ?mem = "c_storage a"
  from assms(2) have ne: "?ds \<noteq> []" by (cases t) simp_all
  have len: "length ?mem = prod_list ?ds" using assms(1) by (rule length_c_storage)
  with assms(3) have count: "array_size t a = length ?mem"
    by (simp add: array_size_def C_array_size_impl_mod)
  have "length (storage (default_init ?ds d)) = length ?mem"
    using ne len by (simp add: length_storage_default_init)
  then have "copy_n ?mem 0 (length ?mem) (storage (default_init ?ds d)) 0 = Inr ?mem"
    by (rule copy_n_whole)
  with ne count have result: "to_multi_array d t a = Inr (of_storage ?ds ?mem)"
    by (simp add: to_multi_array_def multi_array_for_extents address_data)
  have "has_shape ?ds (of_storage ?ds ?mem)"
    using ne len by (rule has_shape_of_storage)
  moreover have "storage (of_storage ?ds ?mem) = ?mem"
    using ne len by (rule storage_of_storage)
  moreover have "\<forall>is. in_bounds is ?ds \<longrightarrow>
      (\<exists>x. call ?ds (of_storage ?ds ?mem) is = Inr x \<and> c_subscript a is = Inr x)"
    using assms(1,2) by (simp add: call_of_storage)
  ultimately show ?thesis using result by blast
qed

theorem to_multi_array_copies_every_element_witness:
  "c_has_type (Array (Array Scalar 2) 2)
     (Elements [Elements [Value 1, Value 2], Elements [Value 3, Value (4 :: int)]])
   \<and> Array (Array Scalar 2) 2 \<noteq> Scalar
   \<and> prod_list (extents (Array (Array Scalar 2) 2)) < size_t_modulus
   \<and> to_multi_array 0 (Array (Array Scalar 2) 2)
        (Elements [Elements [Value 1, Value 2], Elements [Value 3, Value (4 :: int)]])
      = Inr (ArrayN [Array1 [1, 2], Array1 [3, 4]])
   \<and> call [2, 2] (ArrayN [Array1 [1, 2], Array1 [3, 4 :: int]]) [1, 0] = Inr 3
   \<and> c_subscript (Elements [Elements [Value 1, Value 2], Elements [Value 3, Value (4 :: int)]])
        [1, 0] = Inr 3"
proof -
  let ?t = "Array (Array Scalar 2) 2"
  let ?a = "Elements [Elements [Value 1, Value 2], Elements [Value 3, Value (4 :: int)]]"
  have ty: "c_has_type ?t ?a" by simp
  have ne: "?t \<noteq> Scalar" by simp
  have small: "prod_list (extents ?t) < size_t_modulus" by (simp add: size_t_modulus_def)
  have b: "in_bounds [1, 0] (extents ?t)" by (simp add: in_bounds_def)
  from to_multi_array_copies_every_element [OF ty ne small, of 0]
  obtain r where r: "to_multi_array 0 ?t ?a = Inr r"
    and reads: "\<forall>is. in_bounds is (extents ?t) \<longrightarrow>
                  (\<exists>x. call (extents ?t) r is = Inr x \<and> c_subscript ?a is = Inr x)"
    by blast
  have count: "array_size ?t ?a = 4"
    by (simp add: array_size_def size_t_modulus_def)
  have ds: "multi_array_for ?t = [2, 2]"
    by (simp add: multi_array_for_def upt_rec numeral_2_eq_2)
  have dflt: "storage (default_init [2, 2] (0 :: int)) = [0, 0, 0, 0]"
    by (simp add: numeral_2_eq_2)
  have copied: "copy_n [1, 2, 3, 4 :: int] 0 4 [0, 0, 0, 0] 0 = Inr [1, 2, 3, 4]"
    by (simp add: eval_nat_numeral)
  have read_back: "of_storage [2, 2] [1, 2, 3, 4 :: int] = ArrayN [Array1 [1, 2], Array1 [3, 4]]"
    by (simp add: upt_rec numeral_2_eq_2)
  have computed: "to_multi_array 0 ?t ?a = Inr (ArrayN [Array1 [1, 2], Array1 [3, 4]])"
    by (simp only: to_multi_array_def Let_def ds count dflt address_data)
      (simp add: copied read_back del: of_storage.simps)
  from reads b
  obtain x where "call (extents ?t) r [1, 0] = Inr x" "c_subscript ?a [1, 0] = Inr x"
    by blast
  with r computed ty ne small show ?thesis by simp
qed

end
